theory Spec2Isabelle
  imports Main
begin

section \<open>The route table of \<open>fastapi/applications.py\<close>\<close>

text \<open>
  The module defines one class, \<open>FastAPI\<close>, with a constructor and two methods,
  \<open>add_route\<close> and \<open>include_router\<close>. Both methods work by side effect on
  objects that are shared by reference: the list object behind \<open>self.routes\<close> and
  the route objects that the lists refer to. The model therefore keeps an explicit
  store, and every object is known by its address (a natural number).
\<close>

subsection \<open>Objects\<close>

text \<open>
  Modelled from the spec: the class \<open>APIRoute\<close> is imported from
  \<open>fastapi.routing\<close>, which is not among the sources. Its attributes are those the
  source passes to its constructor (lines 75-81) and those \<open>include_router\<close>
  reads and writes (\<open>path\<close>, \<open>tags\<close>); \<open>tags\<close> is a Python list, since the
  source computes \<open>route.tags + tags\<close> with \<open>tags\<close> a list. The type \<open>'v\<close>
  stands for opaque Python values (\<open>Callable\<close>, \<open>Any\<close>).
\<close>

record 'v APIRoute =
  path :: string
  endpoint :: 'v
  methods :: "string list"
  name :: "string option"
  include_in_schema :: bool
  tags :: "string list"

text \<open>
  An entry of a route table is an object of any class; \<open>include_router\<close> asks only
  whether it is an instance of \<open>APIRoute\<close>. \<open>Other\<close> stands for an object of any
  other class (a mount, a sub-application).
\<close>

datatype 'v entry = Route "'v APIRoute" | Other 'v

text \<open>
  Modelled from the spec: the class \<open>APIRouter\<close> is imported from
  \<open>fastapi.routing\<close> too. The source reads one attribute of it, \<open>routes\<close>, and
  iterates over it: the address of a list object.
\<close>

record APIRouter =
  router_routes :: nat

text \<open>The attributes that \<open>FastAPI.__init__\<close> assigns (lines 45-54).\<close>

record 'v FastAPI =
  debug :: bool
  title :: string
  description :: string
  version :: string
  openapi_url :: "string option"
  openapi_tags :: "(string \<times> 'v) list list"
  docs_url :: "string option"
  redoc_url :: "string option"
  routes :: nat
  extra :: "(string \<times> 'v) list"

text \<open>
  The store: the application objects, the list objects (a route table is a list of
  addresses of entries) and the entries, each sort with the next address free for
  allocation.
\<close>

record 'v store =
  apps :: "nat \<Rightarrow> 'v FastAPI"
  lists :: "nat \<Rightarrow> nat list"
  objs :: "nat \<Rightarrow> 'v entry"
  fresh_app :: nat
  fresh_list :: nat
  fresh_obj :: nat

subsection \<open>Python idioms\<close>

text \<open>
  A keyword argument that the caller omits is \<open>None\<close> in the model; the default of
  the signature is applied by \<open>default\<close>.
\<close>

definition default :: "'a \<Rightarrow> 'a option \<Rightarrow> 'a" where
  "default d arg = (case arg of None \<Rightarrow> d | Some x \<Rightarrow> x)"

text \<open>
  \<open>xs or d\<close> for an optional list: \<open>None\<close> and the empty list are both falsy.
\<close>

definition or_list :: "'a list option \<Rightarrow> 'a list \<Rightarrow> 'a list" where
  "or_list arg d = (case arg of None \<Rightarrow> d | Some xs \<Rightarrow> if xs = [] then d else xs)"

text \<open>
  \<open>list(set(xs))\<close>: the elements of \<open>xs\<close>, each once. Python leaves the order
  of the result open (it follows the hashes); the model takes the order of last
  occurrence, and no theorem below speaks of the order.
\<close>

definition list_of_set :: "'a list \<Rightarrow> 'a list" where
  "list_of_set xs = remdups xs"

subsection \<open>\<open>FastAPI.__init__\<close>\<close>

text \<open>
  \<open>routes or []\<close> keeps the list object the caller passed when it is not empty,
  and allocates a new empty list otherwise. The new application object is allocated
  at \<open>fresh_app\<close>, whose address is returned with the store.
\<close>

definition FastAPI_init ::
  "bool option \<Rightarrow> nat option \<Rightarrow> string option \<Rightarrow> string option \<Rightarrow> string option \<Rightarrow>
   string option option \<Rightarrow> (string \<times> 'v) list list option \<Rightarrow> string option option \<Rightarrow>
   string option option \<Rightarrow> (string \<times> 'v) list \<Rightarrow> 'v store \<Rightarrow> nat \<times> 'v store" where
  "FastAPI_init debug_arg routes_arg title_arg description_arg version_arg openapi_url_arg
     openapi_tags_arg docs_url_arg redoc_url_arg extra_arg s =
   (let new_list = (fresh_list s,
                    s\<lparr>lists := (lists s)(fresh_list s := []), fresh_list := Suc (fresh_list s)\<rparr>);
        (l, s1) = (case routes_arg of
                     None \<Rightarrow> new_list
                   | Some r \<Rightarrow> if lists s r = [] then new_list else (r, s));
        self = fresh_app s1;
        app = \<lparr>debug = default False debug_arg,
               title = default ''FastAPI'' title_arg,
               description = default [] description_arg,
               version = default ''0.1.0'' version_arg,
               openapi_url = default (Some ''/openapi.json'') openapi_url_arg,
               openapi_tags = or_list openapi_tags_arg [],
               docs_url = default (Some ''/docs'') docs_url_arg,
               redoc_url = default (Some ''/redoc'') redoc_url_arg,
               routes = l,
               extra = extra_arg\<rparr>
    in (self, s1\<lparr>apps := (apps s1)(self := app), fresh_app := Suc self\<rparr>))"

subsection \<open>\<open>FastAPI.add_route\<close>\<close>

text \<open>
  Modelled from the spec: the constructor of \<open>APIRoute\<close> (not among the sources)
  stores each keyword argument in the attribute of the same name; a route that was
  given no tags has none.
\<close>

definition APIRoute_init ::
  "string \<Rightarrow> 'v \<Rightarrow> string list \<Rightarrow> string option \<Rightarrow> bool \<Rightarrow> 'v APIRoute" where
  "APIRoute_init path_arg endpoint_arg methods_arg name_arg include_in_schema_arg =
     \<lparr>path = path_arg, endpoint = endpoint_arg, methods = methods_arg, name = name_arg,
      include_in_schema = include_in_schema_arg, tags = []\<rparr>"

text \<open>
  Lines 75-82: the route object is built, allocated (at \<open>fresh_obj\<close>) and its
  address appended to the list object behind \<open>self.routes\<close>.
\<close>

definition add_route ::
  "nat \<Rightarrow> string \<Rightarrow> 'v \<Rightarrow> string list option \<Rightarrow> string option \<Rightarrow> bool option \<Rightarrow>
   'v store \<Rightarrow> 'v store" where
  "add_route self path_arg endpoint_arg methods_arg name_arg include_in_schema_arg s =
   (let route = APIRoute_init path_arg endpoint_arg (or_list methods_arg [''GET''])
                  name_arg (default True include_in_schema_arg);
        a = fresh_obj s;
        s1 = s\<lparr>objs := (objs s)(a := Route route), fresh_obj := Suc a\<rparr>;
        l = routes (apps s1 self)
    in s1\<lparr>lists := (lists s1)(l := lists s1 l @ [a])\<rparr>)"

subsection \<open>\<open>FastAPI.include_router\<close>\<close>

text \<open>
  The body of the loop (lines 104-108) for the entry at address \<open>a\<close>: an entry
  that is not an \<open>APIRoute\<close> is passed over; an \<open>APIRoute\<close> is rewritten where it
  stands, and its address is appended to the list object behind \<open>self.routes\<close>.
  \<open>if tags:\<close> is false for \<open>None\<close> and for the empty list.
\<close>

definition include_body ::
  "nat \<Rightarrow> string \<Rightarrow> string list option \<Rightarrow> nat \<Rightarrow> 'v store \<Rightarrow> 'v store" where
  "include_body self prefix tags_arg a s =
   (case objs s a of
      Other v \<Rightarrow> s
    | Route route \<Rightarrow>
       (let route1 = route\<lparr>path := prefix @ path route\<rparr>;
            route2 = (case tags_arg of
                        None \<Rightarrow> route1
                      | Some ts \<Rightarrow>
                          if ts = [] then route1
                          else route1\<lparr>tags := list_of_set (tags route1 @ ts)\<rparr>);
            s1 = s\<lparr>objs := (objs s)(a := Route route2)\<rparr>;
            l = routes (apps s1 self)
        in s1\<lparr>lists := (lists s1)(l := lists s1 l @ [a])\<rparr>))"

text \<open>
  The \<open>for\<close> loop over the list object at address \<open>lr\<close>. Python's list iterator
  holds an index and compares it with the current length of the list before every
  step, so it sees elements appended during the loop. The loop may then run forever:
  \<open>None\<close> is the run that never returns.
\<close>

partial_function (option) include_loop ::
  "nat \<Rightarrow> nat \<Rightarrow> string \<Rightarrow> string list option \<Rightarrow> nat \<Rightarrow> 'v store \<Rightarrow> 'v store option" where
  "include_loop self lr prefix tags_arg i s =
   (if i < length (lists s lr)
    then include_loop self lr prefix tags_arg (Suc i)
           (include_body self prefix tags_arg (lists s lr ! i) s)
    else Some s)"

text \<open>
  \<open>router.routes\<close> is evaluated once, when the loop starts. The arguments
  \<open>dependencies\<close> and \<open>responses\<close> are not used by the source and are left out.
\<close>

definition include_router ::
  "nat \<Rightarrow> APIRouter \<Rightarrow> string option \<Rightarrow> string list option \<Rightarrow> 'v store \<Rightarrow> 'v store option" where
  "include_router self router prefix_arg tags_arg s =
     include_loop self (router_routes router) (default [] prefix_arg) tags_arg 0 s"

subsection \<open>Notions used in the statements\<close>

text \<open>Whether the entry at an address is an instance of \<open>APIRoute\<close>.\<close>

definition is_route :: "'v store \<Rightarrow> nat \<Rightarrow> bool" where
  "is_route s a = (case objs s a of Route r \<Rightarrow> True | Other v \<Rightarrow> False)"

text \<open>
  What one pass of the loop body does to a route object: the two assignments of
  lines 105-107.
\<close>

definition rewrite :: "string \<Rightarrow> string list option \<Rightarrow> 'v APIRoute \<Rightarrow> 'v APIRoute" where
  "rewrite prefix tags_arg route =
     route\<lparr>path := prefix @ path route,
           tags := (case tags_arg of None \<Rightarrow> tags route
                    | Some ts \<Rightarrow> if ts = [] then tags route else list_of_set (tags route @ ts))\<rparr>"

text \<open>
  The loop runs on the application's own list object, and an \<open>APIRoute\<close> lies at
  or after the iterator's index.
\<close>

definition route_ahead :: "nat \<Rightarrow> nat \<Rightarrow> nat \<Rightarrow> 'v store \<Rightarrow> bool" where
  "route_ahead self lr i s \<longleftrightarrow>
     routes (apps s self) = lr \<and>
     (\<exists>j. i \<le> j \<and> j < length (lists s lr) \<and> is_route s (lists s lr ! j))"

text \<open>The route table of an application, of a router; the path of the route at an address.\<close>

definition app_table :: "nat \<Rightarrow> 'v store \<Rightarrow> nat list" where
  "app_table self s = lists s (routes (apps s self))"

definition router_table :: "APIRouter \<Rightarrow> 'v store \<Rightarrow> nat list" where
  "router_table router s = lists s (router_routes router)"

definition route_path_at :: "nat \<Rightarrow> 'v store \<Rightarrow> string option" where
  "route_path_at a s = (case objs s a of Route r \<Rightarrow> Some (path r) | Other v \<Rightarrow> None)"

text \<open>
  The condition under which the loop ends: it does not run on the application's own
  list object, or no entry of the table is an \<open>APIRoute\<close>.
\<close>

definition returns :: "nat \<Rightarrow> APIRouter \<Rightarrow> 'v store \<Rightarrow> bool" where
  "returns self router s \<longleftrightarrow>
     routes (apps s self) \<noteq> router_routes router \<or>
     list_all (\<lambda>a. \<not> is_route s a) (router_table router s)"

subsection \<open>A concrete store\<close>

text \<open>
  The two routes of the example in the specification, at addresses 2 and 3, and an
  object of another class at address 4. List 3 is the table of a router with both
  routes, list 4 the table of a router with a mount and a route, list 5 a table that
  holds the same route object twice, list 7 an empty table. Application 2 owns list 2
  and application 3 owns list 6, both empty.
\<close>

definition items_route :: "nat APIRoute" where
  "items_route = \<lparr>path = ''/items'', endpoint = 1, methods = [''GET''], name = None,
     include_in_schema = True, tags = [''x'']\<rparr>"

definition item_route :: "nat APIRoute" where
  "item_route = \<lparr>path = ''/items/{id}'', endpoint = 2, methods = [''GET'', ''DELETE''],
     name = None, include_in_schema = True, tags = []\<rparr>"

definition blank_app :: "nat FastAPI" where
  "blank_app = \<lparr>debug = False, title = ''FastAPI'', description = [], version = ''0.1.0'',
     openapi_url = Some ''/openapi.json'', openapi_tags = [], docs_url = Some ''/docs'',
     redoc_url = Some ''/redoc'', routes = 0, extra = []\<rparr>"

definition example_store :: "nat store" where
  "example_store =
     \<lparr>apps = (\<lambda>_. blank_app)(2 := blank_app\<lparr>routes := 2\<rparr>, 3 := blank_app\<lparr>routes := 6\<rparr>),
      lists = (\<lambda>_. [])(3 := [2, 3], 4 := [4, 2], 5 := [2, 2]),
      objs = (\<lambda>_. Other 0)(2 := Route items_route, 3 := Route item_route),
      fresh_app = 4, fresh_list = 8, fresh_obj = 5\<rparr>"

text \<open>
  \<open>FastAPI(routes=router.routes)\<close> for the router of list 3: the new application,
  at address 4, and the store after the call.
\<close>

definition shared_app :: "nat \<times> nat store" where
  "shared_app =
     FastAPI_init None (Some 3) None None None None None None None [] example_store"

section \<open>The loop of \<open>include_router\<close>\<close>

lemma include_body_Other: "objs s a = Other v \<Longrightarrow> include_body self p t a s = s"
  by (simp add: include_body_def)

lemma include_body_Route:
  "objs s a = Route r \<Longrightarrow>
   include_body self p t a s =
     s\<lparr>objs := (objs s)(a := Route (rewrite p t r)),
       lists := (lists s)(routes (apps s self) := lists s (routes (apps s self)) @ [a])\<rparr>"
  by (simp add: include_body_def rewrite_def Let_def split: option.splits)

lemma apps_include_body: "apps (include_body self p t a s) = apps s"
  by (cases "objs s a") (simp_all add: include_body_Other include_body_Route)

lemma is_route_include_body: "is_route (include_body self p t a s) b = is_route s b"
  by (cases "objs s a") (simp_all add: include_body_Other include_body_Route is_route_def)

lemma lists_include_body:
  "lists (include_body self p t a s) =
     (if is_route s a then (lists s)(routes (apps s self) := lists s (routes (apps s self)) @ [a])
      else lists s)"
  by (cases "objs s a") (simp_all add: include_body_Other include_body_Route is_route_def)

lemma objs_include_body:
  "objs (include_body self p t a s) =
     (case objs s a of Route r \<Rightarrow> (objs s)(a := Route (rewrite p t r)) | Other v \<Rightarrow> objs s)"
  by (cases "objs s a") (simp_all add: include_body_Other include_body_Route)

lemma fresh_include_body:
  "fresh_app (include_body self p t a s) = fresh_app s"
  "fresh_list (include_body self p t a s) = fresh_list s"
  "fresh_obj (include_body self p t a s) = fresh_obj s"
  by (cases "objs s a"; simp add: include_body_Other include_body_Route)+

lemma apps_fold: "apps (fold (include_body self p t) xs s) = apps s"
  by (induction xs arbitrary: s) (simp_all add: apps_include_body)

lemma fresh_fold:
  "fresh_app (fold (include_body self p t) xs s) = fresh_app s"
  "fresh_list (fold (include_body self p t) xs s) = fresh_list s"
  "fresh_obj (fold (include_body self p t) xs s) = fresh_obj s"
  by (induction xs arbitrary: s; simp add: fresh_include_body)+

lemma is_route_fold: "is_route (fold (include_body self p t) xs s) b = is_route s b"
  by (induction xs arbitrary: s) (simp_all add: is_route_include_body)

lemma lists_fold:
  "lists (fold (include_body self p t) xs s) =
     (lists s)(routes (apps s self) := lists s (routes (apps s self)) @ filter (is_route s) xs)"
proof (induction xs arbitrary: s)
  case Nil
  show ?case by simp
next
  case (Cons a xs)
  have "is_route (include_body self p t a s) = is_route s"
    by (rule ext) (simp add: is_route_include_body)
  then have f: "filter (is_route (include_body self p t a s)) xs = filter (is_route s) xs"
    by simp
  show ?case
    by (auto simp add: Cons.IH f apps_include_body lists_include_body fun_eq_iff)
qed

lemma objs_fold:
  "objs (fold (include_body self p t) xs s) b =
     (case objs s b of
        Route r \<Rightarrow> Route ((rewrite p t ^^ count_list xs b) r)
      | Other v \<Rightarrow> Other v)"
proof (induction xs arbitrary: s)
  case Nil
  show ?case by (simp split: entry.splits)
next
  case (Cons a xs)
  show ?case
    by (simp add: Cons.IH objs_include_body funpow_swap1 split: entry.splits)
qed

lemma path_rewrite_funpow: "path ((rewrite p t ^^ k) r) = concat (replicate k p) @ path r"
  by (induction k) (simp_all add: rewrite_def)

lemma other_rewrite_funpow:
  "endpoint ((rewrite p t ^^ k) r) = endpoint r"
  "methods ((rewrite p t ^^ k) r) = methods r"
  "name ((rewrite p t ^^ k) r) = name r"
  "include_in_schema ((rewrite p t ^^ k) r) = include_in_schema r"
  by (induction k; simp add: rewrite_def)+

lemma tags_rewrite_set: "set (tags (rewrite p t r)) = set (tags r) \<union> set (or_list t [])"
  by (simp add: rewrite_def or_list_def list_of_set_def split: option.splits)

lemma tags_rewrite_funpow_set:
  "set (tags ((rewrite p t ^^ k) r)) =
     set (tags r) \<union> (if k = 0 then {} else set (or_list t []))"
  by (induction k) (auto simp: tags_rewrite_set)

lemma tags_rewrite_funpow_falsy:
  "or_list t [] = [] \<Longrightarrow> tags ((rewrite p t ^^ k) r) = tags r"
  by (induction k) (auto simp: rewrite_def or_list_def split: option.splits if_splits)

lemma tags_rewrite_funpow_distinct:
  "or_list t [] \<noteq> [] \<Longrightarrow> 0 < k \<Longrightarrow> distinct (tags ((rewrite p t ^^ k) r))"
  by (cases k) (auto simp: rewrite_def or_list_def list_of_set_def split: option.splits if_splits)

lemma include_body_not_route: "\<not> is_route s a \<Longrightarrow> include_body self p t a s = s"
  by (cases "objs s a") (simp_all add: include_body_Other is_route_def)

lemma fold_no_route:
  "\<forall>a \<in> set xs. \<not> is_route s a \<Longrightarrow> fold (include_body self p t) xs s = s"
  by (induction xs) (simp_all add: include_body_not_route)

lemma include_loop_fold:
  assumes "routes (apps s self) \<noteq> lr"
  shows "include_loop self lr p t i s = Some (fold (include_body self p t) (drop i (lists s lr)) s)"
  using assms
proof (induction "length (lists s lr) - i" arbitrary: i s)
  case 0
  then show ?case by (simp add: include_loop.simps)
next
  case (Suc n)
  let ?s = "include_body self p t (lists s lr ! i) s"
  from Suc.hyps(2) have lt: "i < length (lists s lr)" by simp
  have l: "lists ?s lr = lists s lr"
    using Suc.prems by (simp add: lists_include_body)
  have a: "routes (apps ?s self) \<noteq> lr"
    using Suc.prems by (simp add: apps_include_body)
  have n: "n = length (lists ?s lr) - Suc i"
    using Suc.hyps(2) l by simp
  have "include_loop self lr p t i s = include_loop self lr p t (Suc i) ?s"
    using lt by (subst include_loop.simps) simp
  also have "\<dots> = Some (fold (include_body self p t) (drop (Suc i) (lists s lr)) ?s)"
    using Suc.hyps(1)[OF n a] l by simp
  also have "\<dots> = Some (fold (include_body self p t) (drop i (lists s lr)) s)"
    using lt by (simp add: Cons_nth_drop_Suc[symmetric])
  finally show ?case .
qed

lemma include_loop_no_route:
  assumes "\<forall>a \<in> set (drop i (lists s lr)). \<not> is_route s a"
  shows "include_loop self lr p t i s = Some s"
  using assms
proof (induction "length (lists s lr) - i" arbitrary: i)
  case 0
  then show ?case by (simp add: include_loop.simps)
next
  case (Suc n)
  from Suc.hyps(2) have lt: "i < length (lists s lr)" by simp
  then have d: "drop i (lists s lr) = lists s lr ! i # drop (Suc i) (lists s lr)"
    by (simp add: Cons_nth_drop_Suc)
  have b: "include_body self p t (lists s lr ! i) s = s"
    using Suc.prems d by (simp add: include_body_not_route)
  have n: "n = length (lists s lr) - Suc i"
    using Suc.hyps(2) by simp
  have "include_loop self lr p t i s = include_loop self lr p t (Suc i) s"
    using lt b by (subst include_loop.simps) simp
  also have "\<dots> = Some s"
    using Suc.prems d by (intro Suc.hyps(1)[OF n]) simp
  finally show ?case .
qed

lemma route_ahead_step:
  assumes inv: "route_ahead self lr i s"
  shows "i < length (lists s lr) \<and>
         route_ahead self lr (Suc i) (include_body self p t (lists s lr ! i) s)"
proof -
  from inv obtain j where ap: "routes (apps s self) = lr"
    and j: "i \<le> j" "j < length (lists s lr)" "is_route s (lists s lr ! j)"
    unfolding route_ahead_def by blast
  let ?a = "lists s lr ! i"
  let ?s = "include_body self p t ?a s"
  from j have lt: "i < length (lists s lr)" by simp
  have ap': "routes (apps ?s self) = lr"
    using ap by (simp add: apps_include_body)
  have "\<exists>k. Suc i \<le> k \<and> k < length (lists ?s lr) \<and> is_route ?s (lists ?s lr ! k)"
  proof (cases "is_route s ?a")
    case True
    then have l: "lists ?s lr = lists s lr @ [?a]"
      using ap by (simp add: lists_include_body)
    have "Suc i \<le> length (lists s lr)" using lt by simp
    moreover have "length (lists s lr) < length (lists ?s lr)" using l by simp
    moreover have "is_route ?s (lists ?s lr ! length (lists s lr))"
      using l True by (simp add: is_route_include_body)
    ultimately show ?thesis by blast
  next
    case False
    then have l: "?s = s" by (simp add: include_body_not_route)
    from False j have "j \<noteq> i" by auto
    with j have "Suc i \<le> j" by simp
    with j l show ?thesis by auto
  qed
  with ap' lt show ?thesis unfolding route_ahead_def by blast
qed

lemma include_loop_Some_no_route_ahead:
  assumes "include_loop self lr p t i s = Some s'"
  shows "\<not> route_ahead self lr i s"
proof (rule include_loop.raw_induct
    [where P = "\<lambda>self lr p t i s s'. \<not> route_ahead self lr i s", OF _ assms])
  fix loop :: "nat \<Rightarrow> nat \<Rightarrow> string \<Rightarrow> string list option \<Rightarrow> nat \<Rightarrow> 'a store \<Rightarrow> 'a store option"
  fix self lr p t i s s'
  assume IH: "\<And>self lr p t i s s'. loop self lr p t i s = Some s' \<Longrightarrow> \<not> route_ahead self lr i s"
  assume run: "(if i < length (lists s lr)
                then loop self lr p t (Suc i) (include_body self p t (lists s lr ! i) s)
                else Some s) = Some s'"
  show "\<not> route_ahead self lr i s"
  proof
    assume inv: "route_ahead self lr i s"
    from route_ahead_step[OF inv, of p t]
    have lt: "i < length (lists s lr)"
      and nxt: "route_ahead self lr (Suc i) (include_body self p t (lists s lr ! i) s)"
      by blast+
    from run lt have "loop self lr p t (Suc i) (include_body self p t (lists s lr ! i) s) = Some s'"
      by simp
    from IH[OF this] nxt show False by blast
  qed
qed

lemma include_loop_diverges:
  "route_ahead self lr i s \<Longrightarrow> include_loop self lr p t i s = None"
  using include_loop_Some_no_route_ahead[of self lr p t i s] by (cases "include_loop self lr p t i s") auto

lemma include_router_returns:
  assumes "routes (apps s self) \<noteq> router_routes router"
  shows "include_router self router pa ta s =
           Some (fold (include_body self (default [] pa) ta) (router_table router s) s)"
  using include_loop_fold[OF assms, of "default [] pa" ta 0]
  by (simp add: include_router_def router_table_def)

lemma include_router_Some_fold:
  assumes "include_router self router pa ta s = Some s'"
  shows "s' = fold (include_body self (default [] pa) ta) (router_table router s) s"
proof (cases "routes (apps s self) = router_routes router")
  case False
  with assms show ?thesis by (simp add: include_router_returns)
next
  case True
  let ?lr = "router_routes router"
  from assms have run: "include_loop self ?lr (default [] pa) ta 0 s = Some s'"
    by (simp add: include_router_def)
  from include_loop_Some_no_route_ahead[OF run] True
  have "\<forall>j < length (lists s ?lr). \<not> is_route s (lists s ?lr ! j)"
    by (auto simp: route_ahead_def)
  then have no: "\<forall>a \<in> set (lists s ?lr). \<not> is_route s a"
    by (auto simp: in_set_conv_nth)
  then have "include_loop self ?lr (default [] pa) ta 0 s = Some s"
    by (intro include_loop_no_route) simp
  with run have "s' = s" by simp
  with no show ?thesis by (simp add: fold_no_route router_table_def)
qed

lemma include_router_diverges:
  assumes "routes (apps s self) = router_routes router"
    and "a \<in> set (router_table router s)" and "is_route s a"
  shows "include_router self router pa ta s = None"
proof -
  from assms(2) obtain j where "j < length (lists s (router_routes router))"
    "lists s (router_routes router) ! j = a"
    by (auto simp: in_set_conv_nth router_table_def)
  with assms(1,3) have "route_ahead self (router_routes router) 0 s"
    by (auto simp: route_ahead_def)
  then show ?thesis by (simp add: include_router_def include_loop_diverges)
qed

lemma apps_include_router:
  "include_router self router pa ta s = Some s' \<Longrightarrow> apps s' = apps s"
  by (drule include_router_Some_fold) (simp add: apps_fold)

lemma app_table_include_router:
  assumes "include_router self router pa ta s = Some s'"
  shows "app_table self s' = app_table self s @ filter (is_route s) (router_table router s)"
  using include_router_Some_fold[OF assms]
  by (simp add: app_table_def apps_fold lists_fold)

lemma include_router_returns_iff:
  "include_router self router pa ta s \<noteq> None \<longleftrightarrow> returns self router s"
proof
  assume "include_router self router pa ta s \<noteq> None"
  then obtain s' where r: "include_router self router pa ta s = Some s'" by blast
  show "returns self router s"
  proof (rule ccontr)
    assume "\<not> returns self router s"
    then obtain a where "routes (apps s self) = router_routes router"
      "a \<in> set (router_table router s)" "is_route s a"
      by (auto simp: returns_def list_all_iff)
    from include_router_diverges[OF this] r show False by simp
  qed
next
  assume "returns self router s"
  then consider "routes (apps s self) \<noteq> router_routes router"
    | "\<forall>a \<in> set (router_table router s). \<not> is_route s a"
    by (auto simp: returns_def list_all_iff)
  then show "include_router self router pa ta s \<noteq> None"
  proof cases
    case 1
    then show ?thesis by (simp add: include_router_returns)
  next
    case 2
    then have "include_loop self (router_routes router) (default [] pa) ta 0 s = Some s"
      by (intro include_loop_no_route) (simp add: router_table_def)
    then show ?thesis by (simp add: include_router_def)
  qed
qed

lemma objs_include_router:
  assumes "include_router self router pa ta s = Some s'"
  shows "objs s' a =
     (case objs s a of
        Route r \<Rightarrow> Route ((rewrite (default [] pa) ta ^^ count_list (router_table router s) a) r)
      | Other v \<Rightarrow> Other v)"
  using include_router_Some_fold[OF assms] by (simp add: objs_fold)

lemma imported_route:
  assumes "include_router self router pa ta s = Some s'" and "objs s a = Route r"
  shows "objs s' a =
     Route ((rewrite (default [] pa) ta ^^ count_list (router_table router s) a) r)"
  using objs_include_router[OF assms(1), of a] assms(2) by simp

lemma not_route_unchanged:
  assumes "include_router self router pa ta s = Some s'" and "\<not> is_route s a"
  shows "objs s' a = objs s a"
  using objs_include_router[OF assms(1), of a] assms(2)
  by (simp add: is_route_def split: entry.splits)

lemma lists_include_router:
  assumes "include_router self router pa ta s = Some s'"
  shows "lists s' = (lists s)(routes (apps s self) :=
            app_table self s @ filter (is_route s) (router_table router s))"
  using include_router_Some_fold[OF assms] by (simp add: lists_fold app_table_def)

lemma fresh_include_router:
  assumes "include_router self router pa ta s = Some s'"
  shows "fresh_app s' = fresh_app s" "fresh_list s' = fresh_list s" "fresh_obj s' = fresh_obj s"
  using include_router_Some_fold[OF assms] by (simp_all add: fresh_fold)

lemma count_list_pos: "a \<in> set xs \<Longrightarrow> 0 < count_list xs a"
  by (induction xs) auto

lemma example_table:
  "router_table \<lparr>router_routes = 3\<rparr> example_store = [2, 3]"
  "router_table \<lparr>router_routes = 4\<rparr> example_store = [4, 2]"
  "router_table \<lparr>router_routes = 5\<rparr> example_store = [2, 2]"
  "router_table \<lparr>router_routes = 7\<rparr> example_store = []"
  by (simp_all add: router_table_def example_store_def)

lemma example_objs:
  "objs example_store 2 = Route items_route"
  "objs example_store 3 = Route item_route"
  "objs example_store 4 = Other 0"
  by (simp_all add: example_store_def)

lemma example_apps:
  "routes (apps example_store 2) = 2"
  "routes (apps example_store 3) = 6"
  by (simp_all add: example_store_def blank_app_def)

lemma example_returns:
  "returns 2 \<lparr>router_routes = 3\<rparr> example_store"
  "returns 2 \<lparr>router_routes = 4\<rparr> example_store"
  "returns 2 \<lparr>router_routes = 5\<rparr> example_store"
  "returns 3 \<lparr>router_routes = 3\<rparr> example_store"
  by (simp_all add: returns_def example_apps)

lemma or_list_Nil: "or_list t [] = default [] t"
  by (simp add: or_list_def default_def split: option.splits)

lemma is_route_include_router:
  assumes "include_router self router pa ta s = Some s'"
  shows "is_route s' = is_route s"
  using include_router_Some_fold[OF assms] by (auto simp: is_route_fold fun_eq_iff)

lemma router_table_include_router:
  assumes "include_router self router pa ta s = Some s'"
  shows "router_table router s' = router_table router s"
proof (cases "routes (apps s self) = router_routes router")
  case True
  from assms have "returns self router s"
    using include_router_returns_iff[of self router pa ta s] by simp
  with True have "filter (is_route s) (router_table router s) = []"
    by (auto simp: returns_def list_all_iff filter_empty_conv)
  with True lists_include_router[OF assms] show ?thesis
    by (simp add: router_table_def app_table_def)
next
  case False
  with lists_include_router[OF assms] show ?thesis
    by (simp add: router_table_def)
qed

lemma example_is_route:
  "is_route example_store 2" "is_route example_store 3" "\<not> is_route example_store 4"
  by (simp_all add: is_route_def example_objs)

lemma example_app_table:
  "app_table 2 example_store = []" "app_table 3 example_store = []"
  by (simp_all add: app_table_def example_store_def blank_app_def)

lemma returns_include_router:
  assumes "include_router A router pa ta s = Some s1" and "returns B router s"
  shows "returns B router s1"
  using assms(2) apps_include_router[OF assms(1)] is_route_include_router[OF assms(1)]
    router_table_include_router[OF assms(1)]
  by (simp add: returns_def)

lemma example_fresh_obj: "fresh_obj example_store = 5"
  by (simp add: example_store_def)

lemma add_route_effect:
  "add_route self p e ms nm vis s =
     s\<lparr>objs := (objs s)(fresh_obj s :=
            Route (APIRoute_init p e (or_list ms [''GET'']) nm (default True vis))),
       fresh_obj := Suc (fresh_obj s),
       lists := (lists s)(routes (apps s self) := app_table self s @ [fresh_obj s])\<rparr>"
  by (simp add: add_route_def Let_def app_table_def)

lemma app_table_add_route:
  "app_table self (add_route self p e ms nm vis s) = app_table self s @ [fresh_obj s]"
  by (simp add: add_route_effect app_table_def)

lemma objs_add_route:
  "objs (add_route self p e ms nm vis s) (fresh_obj s) =
     Route (APIRoute_init p e (or_list ms [''GET'']) nm (default True vis))"
  by (simp add: add_route_effect)

section \<open>Properties of \<open>include_router\<close> and \<open>add_route\<close>\<close>

text \<open>
  C6. Including a router whose route table is empty raises nothing and changes
  nothing: the call returns, and it returns the store it was given, so the
  application's table and its length are what they were. This holds also when the
  empty table is the application's own list object.
\<close>

theorem include_router_empty_noop:
  assumes "router_table router s = []"
  shows "include_router self router prefix_arg tags_arg s = Some s"
  using assms
  by (simp add: include_router_def router_table_def include_loop.simps)

theorem include_router_empty_noop_witness:
  "router_table \<lparr>router_routes = 7\<rparr> example_store = [] \<and>
   include_router 2 \<lparr>router_routes = 7\<rparr> (Some ''/api/v1'') (Some [''v1'']) example_store
     = Some example_store \<and>
   app_table 2 example_store = []"
  using include_router_empty_noop
    [of "\<lparr>router_routes = 7\<rparr>" example_store 2 "Some ''/api/v1''" "Some [''v1'']"]
  by (simp add: router_table_def app_table_def example_store_def blank_app_def)

text \<open>
  C1, as the source has it. When the router's table is a list object other than the
  application's own, the call returns, and what it appends to the application's table
  is the router's table with the entries that are not \<open>APIRoute\<close> instances left
  out, in the router's order: as many routes as the router's table holds, all of its
  entries when every one is a route.
\<close>

theorem include_router_appends:
  assumes "routes (apps s self) \<noteq> router_routes router"
  shows "\<exists>s'. include_router self router prefix_arg tags_arg s = Some s' \<and>
           app_table self s' = app_table self s @ filter (is_route s) (router_table router s) \<and>
           length (app_table self s') =
             length (app_table self s) + length (filter (is_route s) (router_table router s)) \<and>
           ((\<forall>a \<in> set (router_table router s). is_route s a) \<longrightarrow>
              app_table self s' = app_table self s @ router_table router s)"
proof -
  from include_router_returns[OF assms]
  obtain s' where r: "include_router self router prefix_arg tags_arg s = Some s'"
    by blast
  from app_table_include_router[OF r]
  have t: "app_table self s' = app_table self s @ filter (is_route s) (router_table router s)" .
  have "(\<forall>a \<in> set (router_table router s). is_route s a) \<longrightarrow>
          filter (is_route s) (router_table router s) = router_table router s"
    by simp
  with r t show ?thesis by auto
qed

text \<open>The example of the specification: two routes are appended to an empty table.\<close>

theorem include_router_appends_witness:
  "\<exists>s'. include_router 2 \<lparr>router_routes = 3\<rparr> (Some ''/api/v1'') (Some [''v1'']) example_store
          = Some s' \<and>
        app_table 2 example_store = [] \<and> app_table 2 s' = [2, 3] \<and>
        length (app_table 2 s') = 2"
  using include_router_appends
    [of example_store 2 "\<lparr>router_routes = 3\<rparr>" "Some ''/api/v1''" "Some [''v1'']"]
  by (auto simp add: router_table_def app_table_def example_store_def blank_app_def
      is_route_def)

text \<open>
  C1 fails when the application was built on the router's own list,
  \<open>FastAPI(routes=router.routes)\<close>: line 53 keeps the list object it is given, the
  loop then appends to the list it iterates over, and the call never returns.
\<close>

theorem include_router_shared_table_counterexample:
  "router_table \<lparr>router_routes = 3\<rparr> (snd shared_app) = [2, 3] \<and>
   routes (apps (snd shared_app) (fst shared_app)) = 3 \<and>
   include_router (fst shared_app) \<lparr>router_routes = 3\<rparr> (Some ''/api/v1'') (Some [''v1''])
     (snd shared_app) = None"
proof -
  have s: "shared_app =
    (4, example_store\<lparr>apps := (apps example_store)(4 := blank_app\<lparr>routes := 3\<rparr>),
          fresh_app := 5\<rparr>)"
    by (simp add: shared_app_def FastAPI_init_def example_store_def blank_app_def
        default_def or_list_def)
  have t: "router_table \<lparr>router_routes = 3\<rparr> (snd shared_app) = [2, 3]"
    by (simp add: s router_table_def example_store_def)
  have a: "routes (apps (snd shared_app) (fst shared_app)) = 3"
    by (simp add: s)
  have r: "is_route (snd shared_app) 2"
    by (simp add: s is_route_def example_store_def)
  have "include_router (fst shared_app) \<lparr>router_routes = 3\<rparr> (Some ''/api/v1'') (Some [''v1''])
     (snd shared_app) = None"
  proof (rule include_router_diverges[where a = 2, OF _ _ r])
    show "routes (apps (snd shared_app) (fst shared_app)) = router_routes \<lparr>router_routes = 3\<rparr>"
      using a by simp
    show "2 \<in> set (router_table \<lparr>router_routes = 3\<rparr> (snd shared_app))"
      unfolding t by simp
  qed
  with t a show ?thesis by simp
qed

text \<open>
  C2, as the source has it. The loop rewrites a route object once for each time its
  address stands in the router's table, so after the call the path of an imported
  route is the prefix, repeated as often as the route occurs in the table, followed by
  its path before the call: for a route that occurs once, the prefix concatenated with
  the original path, character for character. The call returns whenever the loop's
  ending condition holds.
\<close>

theorem include_router_path:
  "(returns self router s \<longrightarrow> include_router self router prefix_arg tags_arg s \<noteq> None) \<and>
   (\<forall>s' a r. include_router self router prefix_arg tags_arg s = Some s' \<and>
        a \<in> set (router_table router s) \<and> objs s a = Route r \<longrightarrow>
      (\<exists>r'. objs s' a = Route r' \<and>
         path r' = concat (replicate (count_list (router_table router s) a)
                             (default [] prefix_arg)) @ path r \<and>
         (count_list (router_table router s) a = 1 \<longrightarrow>
            path r' = default [] prefix_arg @ path r)))"
proof (intro conjI allI impI)
  assume "returns self router s"
  then show "include_router self router prefix_arg tags_arg s \<noteq> None"
    by (simp only: include_router_returns_iff)
next
  fix s' a r
  assume h: "include_router self router prefix_arg tags_arg s = Some s' \<and>
        a \<in> set (router_table router s) \<and> objs s a = Route r"
  let ?k = "count_list (router_table router s) a"
  let ?r = "(rewrite (default [] prefix_arg) tags_arg ^^ ?k) r"
  from h have "include_router self router prefix_arg tags_arg s = Some s'"
    and "objs s a = Route r"
    by simp_all
  then have o: "objs s' a = Route ?r"
    by (rule imported_route)
  have p: "path ?r = concat (replicate ?k (default [] prefix_arg)) @ path r"
    by (rule path_rewrite_funpow)
  have "?k = 1 \<longrightarrow> path ?r = default [] prefix_arg @ path r"
    by (simp add: rewrite_def)
  with o p show "\<exists>r'. objs s' a = Route r' \<and>
         path r' = concat (replicate ?k (default [] prefix_arg)) @ path r \<and>
         (?k = 1 \<longrightarrow> path r' = default [] prefix_arg @ path r)"
    by blast
qed

text \<open>The example of the specification: \<open>/items\<close> becomes \<open>/api/v1/items\<close>.\<close>

theorem include_router_path_witness:
  "\<exists>s'. include_router 2 \<lparr>router_routes = 3\<rparr> (Some ''/api/v1'') (Some [''v1'']) example_store
          = Some s' \<and>
        route_path_at 2 example_store = Some ''/items'' \<and>
        route_path_at 2 s' = Some ''/api/v1/items'' \<and>
        route_path_at 3 s' = Some ''/api/v1/items/{id}''"
proof -
  let ?R = "\<lparr>router_routes = 3\<rparr>"
  note c = include_router_path
    [of 2 ?R example_store "Some ''/api/v1''" "Some [''v1'']"]
  from c example_returns(1)
  have "include_router 2 ?R (Some ''/api/v1'') (Some [''v1'']) example_store \<noteq> None"
    by (rule conjunct1[THEN mp])
  then obtain s' where
    s': "include_router 2 ?R (Some ''/api/v1'') (Some [''v1'']) example_store = Some s'"
    by blast
  have m2: "2 \<in> set (router_table ?R example_store)"
    and m3: "3 \<in> set (router_table ?R example_store)"
    unfolding example_table by simp_all
  from c[THEN conjunct2, rule_format, OF conjI[OF s' conjI[OF m2 example_objs(1)]]]
  obtain r2 where r2: "objs s' 2 = Route r2"
    and p2: "path r2 = concat (replicate (count_list (router_table ?R example_store) 2)
                         (default [] (Some ''/api/v1''))) @ path items_route"
    by blast
  from c[THEN conjunct2, rule_format, OF conjI[OF s' conjI[OF m3 example_objs(2)]]]
  obtain r3 where r3: "objs s' 3 = Route r3"
    and p3: "path r3 = concat (replicate (count_list (router_table ?R example_store) 3)
                         (default [] (Some ''/api/v1''))) @ path item_route"
    by blast
  have "route_path_at 2 s' = Some ''/api/v1/items''"
    using r2 p2 by (simp add: example_table route_path_at_def default_def items_route_def)
  moreover have "route_path_at 3 s' = Some ''/api/v1/items/{id}''"
    using r3 p3 by (simp add: example_table route_path_at_def default_def item_route_def)
  moreover have "route_path_at 2 example_store = Some ''/items''"
    by (simp add: route_path_at_def example_objs items_route_def)
  ultimately show ?thesis using s' by blast
qed

text \<open>
  C2 fails for a router whose table holds the same route object twice: the object is
  prefixed at both steps, and both imported entries then read \<open>/v1/v1/items\<close>.
\<close>

theorem include_router_duplicate_counterexample:
  "router_table \<lparr>router_routes = 5\<rparr> example_store = [2, 2] \<and>
   route_path_at 2 example_store = Some ''/items'' \<and>
   Option.bind (include_router 2 \<lparr>router_routes = 5\<rparr> (Some ''/v1'') None example_store)
     (route_path_at 2) = Some ''/v1/v1/items''"
proof -
  let ?R = "\<lparr>router_routes = 5\<rparr>"
  from example_returns(3)
  have "include_router 2 ?R (Some ''/v1'') None example_store \<noteq> None"
    by (simp only: include_router_returns_iff)
  then obtain s' where s': "include_router 2 ?R (Some ''/v1'') None example_store = Some s'"
    by blast
  from imported_route[OF s' example_objs(1)]
  have "route_path_at 2 s' = Some ''/v1/v1/items''"
    by (simp add: example_table route_path_at_def rewrite_def default_def items_route_def)
  moreover have "route_path_at 2 example_store = Some ''/items''"
    by (simp add: route_path_at_def example_objs items_route_def)
  ultimately show ?thesis using s' example_table(3) by simp
qed

text \<open>
  C3. After the call, the tags of an imported route are, as a set, the union of its
  tags before the call and the \<open>tags\<close> argument (\<open>None\<close> counting as no tags).
  When the argument holds a tag, line 107 rebuilds the list from a set, so no tag
  stands twice in it; when the argument is \<open>None\<close> or empty, the guard of line 106
  leaves the list as it was. A route object that occurs several times in the table gets
  the same result, the union being idempotent.
\<close>

theorem include_router_tags:
  "(returns self router s \<longrightarrow> include_router self router prefix_arg tags_arg s \<noteq> None) \<and>
   (\<forall>s' a r. include_router self router prefix_arg tags_arg s = Some s' \<and>
        a \<in> set (router_table router s) \<and> objs s a = Route r \<longrightarrow>
      (\<exists>r'. objs s' a = Route r' \<and>
         set (tags r') = set (tags r) \<union> set (default [] tags_arg) \<and>
         (default [] tags_arg \<noteq> [] \<longrightarrow> distinct (tags r')) \<and>
         (default [] tags_arg = [] \<longrightarrow> tags r' = tags r)))"
proof (intro conjI allI impI)
  assume "returns self router s"
  then show "include_router self router prefix_arg tags_arg s \<noteq> None"
    by (simp only: include_router_returns_iff)
next
  fix s' a r
  assume h: "include_router self router prefix_arg tags_arg s = Some s' \<and>
        a \<in> set (router_table router s) \<and> objs s a = Route r"
  let ?k = "count_list (router_table router s) a"
  let ?r = "(rewrite (default [] prefix_arg) tags_arg ^^ ?k) r"
  from h have ret: "include_router self router prefix_arg tags_arg s = Some s'"
    and o: "objs s a = Route r" and m: "a \<in> set (router_table router s)"
    by simp_all
  from ret o have o': "objs s' a = Route ?r"
    by (rule imported_route)
  from m have k: "0 < ?k" by (rule count_list_pos)
  then have u: "set (tags ?r) = set (tags r) \<union> set (default [] tags_arg)"
    by (simp add: tags_rewrite_funpow_set or_list_Nil)
  have d: "default [] tags_arg \<noteq> [] \<longrightarrow> distinct (tags ?r)"
    using k by (simp add: tags_rewrite_funpow_distinct or_list_Nil)
  have e: "default [] tags_arg = [] \<longrightarrow> tags ?r = tags r"
    by (simp add: tags_rewrite_funpow_falsy or_list_Nil)
  from o' u d e show "\<exists>r'. objs s' a = Route r' \<and>
         set (tags r') = set (tags r) \<union> set (default [] tags_arg) \<and>
         (default [] tags_arg \<noteq> [] \<longrightarrow> distinct (tags r')) \<and>
         (default [] tags_arg = [] \<longrightarrow> tags r' = tags r)"
    by blast
qed

text \<open>
  The example of the specification: tags \<open>{x}\<close> and \<open>{}\<close> become \<open>{x, v1}\<close> and
  \<open>{v1}\<close>.
\<close>

theorem include_router_tags_witness:
  "\<exists>s' r2 r3.
      include_router 2 \<lparr>router_routes = 3\<rparr> (Some ''/api/v1'') (Some [''v1'']) example_store
        = Some s' \<and>
      tags items_route = [''x''] \<and> tags item_route = [] \<and>
      objs s' 2 = Route r2 \<and> set (tags r2) = {''x'', ''v1''} \<and> distinct (tags r2) \<and>
      objs s' 3 = Route r3 \<and> set (tags r3) = {''v1''} \<and> distinct (tags r3)"
proof -
  let ?R = "\<lparr>router_routes = 3\<rparr>"
  note c = include_router_tags
    [of 2 ?R example_store "Some ''/api/v1''" "Some [''v1'']"]
  from c example_returns(1)
  have "include_router 2 ?R (Some ''/api/v1'') (Some [''v1'']) example_store \<noteq> None"
    by (rule conjunct1[THEN mp])
  then obtain s' where
    s': "include_router 2 ?R (Some ''/api/v1'') (Some [''v1'']) example_store = Some s'"
    by blast
  have m2: "2 \<in> set (router_table ?R example_store)"
    and m3: "3 \<in> set (router_table ?R example_store)"
    unfolding example_table by simp_all
  from c[THEN conjunct2, rule_format, OF conjI[OF s' conjI[OF m2 example_objs(1)]]]
  obtain r2 where r2: "objs s' 2 = Route r2"
    "set (tags r2) = set (tags items_route) \<union> set (default [] (Some [''v1'']))"
    "default [] (Some [''v1'']) \<noteq> [] \<longrightarrow> distinct (tags r2)"
    by blast
  from c[THEN conjunct2, rule_format, OF conjI[OF s' conjI[OF m3 example_objs(2)]]]
  obtain r3 where r3: "objs s' 3 = Route r3"
    "set (tags r3) = set (tags item_route) \<union> set (default [] (Some [''v1'']))"
    "default [] (Some [''v1'']) \<noteq> [] \<longrightarrow> distinct (tags r3)"
    by blast
  have "set (tags r2) = {''x'', ''v1''}" "distinct (tags r2)"
    using r2 by (auto simp add: default_def items_route_def)
  moreover have "set (tags r3) = {''v1''}" "distinct (tags r3)"
    using r3 by (simp_all add: default_def item_route_def)
  moreover have "tags items_route = [''x'']" "tags item_route = []"
    by (simp_all add: items_route_def item_route_def)
  ultimately show ?thesis using s' r2(1) r3(1) by blast
qed

text \<open>
  C5. Only the entries of the router's table that are \<open>APIRoute\<close> instances are
  imported: what is appended to the application's table is the router's table filtered
  by that test, and an object that is not an \<open>APIRoute\<close> is left as it was and is
  not among the appended entries.
\<close>

theorem include_router_skips_other_entries:
  "(returns self router s \<longrightarrow> include_router self router prefix_arg tags_arg s \<noteq> None) \<and>
   (\<forall>s'. include_router self router prefix_arg tags_arg s = Some s' \<longrightarrow>
      app_table self s' = app_table self s @ filter (is_route s) (router_table router s) \<and>
      (\<forall>a. \<not> is_route s a \<longrightarrow>
         objs s' a = objs s a \<and>
         a \<notin> set (drop (length (app_table self s)) (app_table self s'))))"
proof (intro conjI allI impI)
  assume "returns self router s"
  then show "include_router self router prefix_arg tags_arg s \<noteq> None"
    by (simp only: include_router_returns_iff)
next
  fix s'
  assume ret: "include_router self router prefix_arg tags_arg s = Some s'"
  then show t: "app_table self s' =
      app_table self s @ filter (is_route s) (router_table router s)"
    by (rule app_table_include_router)
  fix a
  assume n: "\<not> is_route s a"
  with ret show "objs s' a = objs s a"
    by (rule not_route_unchanged)
  from n show "a \<notin> set (drop (length (app_table self s)) (app_table self s'))"
    by (simp add: t)
qed

text \<open>
  A router whose table holds a mount and a route: the route alone is appended.
\<close>

theorem include_router_skips_other_entries_witness:
  "\<exists>s'. include_router 2 \<lparr>router_routes = 4\<rparr> (Some ''/api/v1'') (Some [''v1'']) example_store
          = Some s' \<and>
        router_table \<lparr>router_routes = 4\<rparr> example_store = [4, 2] \<and>
        objs example_store 4 = Other 0 \<and>
        app_table 2 example_store = [] \<and> app_table 2 s' = [2] \<and> objs s' 4 = Other 0"
proof -
  let ?R = "\<lparr>router_routes = 4\<rparr>"
  note c = include_router_skips_other_entries
    [of 2 ?R example_store "Some ''/api/v1''" "Some [''v1'']"]
  from c example_returns(2)
  have "include_router 2 ?R (Some ''/api/v1'') (Some [''v1'']) example_store \<noteq> None"
    by (rule conjunct1[THEN mp])
  then obtain s' where
    s': "include_router 2 ?R (Some ''/api/v1'') (Some [''v1'']) example_store = Some s'"
    by blast
  note n = example_is_route(3) and y = example_is_route(1) and e = example_app_table(1)
  from c[THEN conjunct2, rule_format, OF s', THEN conjunct1]
  have "app_table 2 s' = [2]"
    by (simp add: e example_table n y)
  moreover from c[THEN conjunct2, rule_format, OF s', THEN conjunct2, rule_format, OF n]
  have "objs s' 4 = Other 0"
    by (simp add: example_objs)
  ultimately show ?thesis using s' e example_table(2) example_objs(3) by blast
qed

text \<open>
  C10, as the source has it. The call assigns no attribute of any application object
  and allocates nothing; it changes no list object but the application's table, where
  the entries present before the call keep their positions and the new ones follow
  them; and it changes no object except the \<open>APIRoute\<close> entries of the router's
  table, of which it changes \<open>path\<close> and \<open>tags\<close> only. A route that the
  application's table shares with the router's table is therefore rewritten where it
  stands.
\<close>

theorem include_router_frame:
  "(returns self router s \<longrightarrow> include_router self router prefix_arg tags_arg s \<noteq> None) \<and>
   (\<forall>s'. include_router self router prefix_arg tags_arg s = Some s' \<longrightarrow>
      apps s' = apps s \<and>
      fresh_app s' = fresh_app s \<and> fresh_list s' = fresh_list s \<and> fresh_obj s' = fresh_obj s \<and>
      (\<forall>l. l \<noteq> routes (apps s self) \<longrightarrow> lists s' l = lists s l) \<and>
      take (length (app_table self s)) (app_table self s') = app_table self s \<and>
      (\<forall>a. a \<notin> set (filter (is_route s) (router_table router s)) \<longrightarrow> objs s' a = objs s a) \<and>
      (\<forall>a r. objs s a = Route r \<longrightarrow>
         (\<exists>r'. objs s' a = Route r' \<and> endpoint r' = endpoint r \<and> methods r' = methods r \<and>
               name r' = name r \<and> include_in_schema r' = include_in_schema r)))"
proof (intro conjI allI impI)
  assume "returns self router s"
  then show "include_router self router prefix_arg tags_arg s \<noteq> None"
    by (simp only: include_router_returns_iff)
next
  fix s'
  assume ret: "include_router self router prefix_arg tags_arg s = Some s'"
  then show "apps s' = apps s" by (rule apps_include_router)
  from ret show "fresh_app s' = fresh_app s" "fresh_list s' = fresh_list s"
    "fresh_obj s' = fresh_obj s"
    by (rule fresh_include_router)+
  from app_table_include_router[OF ret]
  show "take (length (app_table self s)) (app_table self s') = app_table self s"
    by simp
next
  fix s' l
  assume ret: "include_router self router prefix_arg tags_arg s = Some s'"
    and "l \<noteq> routes (apps s self)"
  with lists_include_router[OF ret] show "lists s' l = lists s l"
    by simp
next
  fix s' a
  assume ret: "include_router self router prefix_arg tags_arg s = Some s'"
    and n: "a \<notin> set (filter (is_route s) (router_table router s))"
  show "objs s' a = objs s a"
  proof (cases "is_route s a")
    case False
    with ret show ?thesis by (rule not_route_unchanged)
  next
    case True
    with n have "count_list (router_table router s) a = 0"
      by (simp add: count_list_0_iff)
    with objs_include_router[OF ret, of a] show ?thesis
      by (simp split: entry.splits)
  qed
next
  fix s' a r
  assume ret: "include_router self router prefix_arg tags_arg s = Some s'"
    and o: "objs s a = Route r"
  from imported_route[OF ret o]
  show "\<exists>r'. objs s' a = Route r' \<and> endpoint r' = endpoint r \<and> methods r' = methods r \<and>
               name r' = name r \<and> include_in_schema r' = include_in_schema r"
    by (simp add: other_rewrite_funpow)
qed

text \<open>
  The example of the specification: the application objects, the router's own list,
  another application's list and the mount are what they were.
\<close>

theorem include_router_frame_witness:
  "\<exists>s'. include_router 2 \<lparr>router_routes = 3\<rparr> (Some ''/api/v1'') (Some [''v1'']) example_store
          = Some s' \<and>
        apps s' = apps example_store \<and> lists s' 3 = [2, 3] \<and> lists s' 6 = [] \<and>
        objs s' 4 = Other 0"
proof -
  let ?R = "\<lparr>router_routes = 3\<rparr>"
  note c = include_router_frame
    [of 2 ?R example_store "Some ''/api/v1''" "Some [''v1'']"]
  from c example_returns(1)
  have "include_router 2 ?R (Some ''/api/v1'') (Some [''v1'']) example_store \<noteq> None"
    by (rule conjunct1[THEN mp])
  then obtain s' where
    s': "include_router 2 ?R (Some ''/api/v1'') (Some [''v1'']) example_store = Some s'"
    by blast
  note f = c[THEN conjunct2, rule_format, OF s']
  from f have a: "apps s' = apps example_store" by blast
  from f have l: "\<forall>l. l \<noteq> routes (apps example_store 2) \<longrightarrow> lists s' l = lists example_store l"
    by blast
  from f have o: "\<forall>a. a \<notin> set (filter (is_route example_store) (router_table ?R example_store))
      \<longrightarrow> objs s' a = objs example_store a"
    by blast
  from l have "lists s' 3 = [2, 3]" "lists s' 6 = []"
    by (simp_all add: example_apps example_store_def)
  moreover from o have "objs s' 4 = Other 0"
    by (simp add: example_table example_objs)
  ultimately show ?thesis using s' a by blast
qed

text \<open>
  C10 fails when a route already in the application's table is also in the router's
  table, as after a first inclusion of the same router: the second inclusion turns
  the path of the route at the head of the table from \<open>/v1/items\<close> into
  \<open>/v1/v1/items\<close>.
\<close>

theorem include_router_again_counterexample:
  "map_option (app_table 2)
     (include_router 2 \<lparr>router_routes = 3\<rparr> (Some ''/v1'') None example_store) = Some [2, 3] \<and>
   Option.bind (include_router 2 \<lparr>router_routes = 3\<rparr> (Some ''/v1'') None example_store)
     (route_path_at 2) = Some ''/v1/items'' \<and>
   Option.bind
     (Option.bind (include_router 2 \<lparr>router_routes = 3\<rparr> (Some ''/v1'') None example_store)
        (include_router 2 \<lparr>router_routes = 3\<rparr> (Some ''/v1'') None))
     (route_path_at 2) = Some ''/v1/v1/items''"
proof -
  let ?R = "\<lparr>router_routes = 3\<rparr>"
  from example_returns(1)
  have "include_router 2 ?R (Some ''/v1'') None example_store \<noteq> None"
    by (simp only: include_router_returns_iff)
  then obtain s1 where s1: "include_router 2 ?R (Some ''/v1'') None example_store = Some s1"
    by blast
  have t1: "app_table 2 s1 = [2, 3]"
    using app_table_include_router[OF s1]
    by (simp add: example_table example_app_table example_is_route)
  from imported_route[OF s1 example_objs(1)]
  have o1: "objs s1 2 = Route (rewrite ''/v1'' None items_route)"
    by (simp add: example_table default_def)
  have a1: "routes (apps s1 2) \<noteq> router_routes ?R"
    using apps_include_router[OF s1] by (simp add: example_apps)
  from include_router_returns[OF a1]
  obtain s2 where s2: "include_router 2 ?R (Some ''/v1'') None s1 = Some s2"
    by blast
  from imported_route[OF s2 o1]
  have o2: "objs s2 2 = Route (rewrite ''/v1'' None (rewrite ''/v1'' None items_route))"
    by (simp add: router_table_include_router[OF s1] example_table default_def)
  have "route_path_at 2 s1 = Some ''/v1/items''"
    by (simp add: route_path_at_def o1 rewrite_def items_route_def)
  moreover have "route_path_at 2 s2 = Some ''/v1/v1/items''"
    by (simp add: route_path_at_def o2 rewrite_def items_route_def)
  ultimately show ?thesis using s1 s2 t1 by simp
qed

text \<open>
  C4. The loop rewrites the router's route objects where they stand, path and tags,
  and appends their addresses; it allocates no object, and the router's table holds
  the same addresses afterwards. Two inclusions of one router, into applications
  \<open>A\<close> and \<open>B\<close> with prefixes \<open>p1\<close> and \<open>p2\<close>, append the same addresses
  to both tables. After the second, the path of each route is \<open>p2\<close> (once per
  occurrence in the table) in front of the path that the first inclusion left, which
  already carries \<open>p1\<close>, and its tags are those the first inclusion left, joined
  with the tags of the second. The other attributes are untouched.
\<close>

theorem include_router_twice_shares_routes:
  "(returns A router s \<and> returns B router s \<longrightarrow>
      Option.bind (include_router A router (Some p1) t1 s)
        (include_router B router (Some p2) t2) \<noteq> None) \<and>
   (\<forall>s1 s2. include_router A router (Some p1) t1 s = Some s1 \<and>
        include_router B router (Some p2) t2 s1 = Some s2 \<longrightarrow>
      fresh_obj s2 = fresh_obj s \<and>
      router_table router s1 = router_table router s \<and>
      router_table router s2 = router_table router s \<and>
      drop (length (app_table A s)) (app_table A s1) =
        filter (is_route s) (router_table router s) \<and>
      drop (length (app_table B s1)) (app_table B s2) =
        filter (is_route s) (router_table router s) \<and>
      (\<forall>a r. a \<in> set (router_table router s) \<and> objs s a = Route r \<longrightarrow>
         (\<exists>r1 r2. objs s1 a = Route r1 \<and> objs s2 a = Route r2 \<and>
            path r1 = concat (replicate (count_list (router_table router s) a) p1) @ path r \<and>
            path r2 = concat (replicate (count_list (router_table router s) a) p2) @ path r1 \<and>
            set (tags r1) = set (tags r) \<union> set (default [] t1) \<and>
            set (tags r2) = set (tags r1) \<union> set (default [] t2) \<and>
            (default [] t1 \<noteq> [] \<longrightarrow> distinct (tags r1)) \<and>
            (default [] t2 \<noteq> [] \<longrightarrow> distinct (tags r2)) \<and>
            (default [] t1 = [] \<longrightarrow> tags r1 = tags r) \<and>
            (default [] t2 = [] \<longrightarrow> tags r2 = tags r1) \<and>
            endpoint r2 = endpoint r \<and> methods r2 = methods r \<and> name r2 = name r \<and>
            include_in_schema r2 = include_in_schema r)))"
proof (intro conjI allI impI)
  assume h: "returns A router s \<and> returns B router s"
  then have "include_router A router (Some p1) t1 s \<noteq> None"
    by (simp only: include_router_returns_iff)
  then obtain s1 where s1: "include_router A router (Some p1) t1 s = Some s1"
    by blast
  from h have "returns B router s1"
    by (intro returns_include_router[OF s1]) simp
  then have "include_router B router (Some p2) t2 s1 \<noteq> None"
    by (simp only: include_router_returns_iff)
  with s1 show "Option.bind (include_router A router (Some p1) t1 s)
        (include_router B router (Some p2) t2) \<noteq> None"
    by simp
next
  fix s1 s2
  assume h: "include_router A router (Some p1) t1 s = Some s1 \<and>
        include_router B router (Some p2) t2 s1 = Some s2"
  then have s1: "include_router A router (Some p1) t1 s = Some s1"
    and s2: "include_router B router (Some p2) t2 s1 = Some s2"
    by simp_all
  note t = router_table_include_router[OF s1] and i = is_route_include_router[OF s1]
  from fresh_include_router(3)[OF s1] fresh_include_router(3)[OF s2]
  show "fresh_obj s2 = fresh_obj s" by simp
  show "router_table router s1 = router_table router s" by (rule t)
  from router_table_include_router[OF s2] t
  show "router_table router s2 = router_table router s" by simp
  from app_table_include_router[OF s1]
  show "drop (length (app_table A s)) (app_table A s1) =
        filter (is_route s) (router_table router s)"
    by simp
  from app_table_include_router[OF s2]
  show "drop (length (app_table B s1)) (app_table B s2) =
        filter (is_route s) (router_table router s)"
    by (simp add: t i)
  fix a r
  assume "a \<in> set (router_table router s) \<and> objs s a = Route r"
  then have o: "objs s a = Route r" and m: "a \<in> set (router_table router s)"
    by simp_all
  let ?k = "count_list (router_table router s) a"
  let ?r1 = "(rewrite (default [] (Some p1)) t1 ^^ ?k) r"
  let ?r2 = "(rewrite (default [] (Some p2)) t2 ^^ ?k) ?r1"
  from m have k: "0 < ?k" by (rule count_list_pos)
  from imported_route[OF s1 o] have o1: "objs s1 a = Route ?r1" .
  from imported_route[OF s2 o1] have o2: "objs s2 a = Route ?r2"
    by (simp add: t)
  have p1: "path ?r1 = concat (replicate ?k p1) @ path r"
    by (simp add: path_rewrite_funpow default_def)
  have p2: "path ?r2 = concat (replicate ?k p2) @ path ?r1"
    by (simp only: path_rewrite_funpow default_def option.case)
  have u1: "set (tags ?r1) = set (tags r) \<union> set (default [] t1)"
    using k by (simp add: tags_rewrite_funpow_set or_list_Nil)
  have u2: "set (tags ?r2) = set (tags ?r1) \<union> set (default [] t2)"
    using k by (simp only: tags_rewrite_funpow_set or_list_Nil) simp
  have d1: "default [] t1 \<noteq> [] \<longrightarrow> distinct (tags ?r1)"
    using k by (simp add: tags_rewrite_funpow_distinct or_list_Nil)
  have d2: "default [] t2 \<noteq> [] \<longrightarrow> distinct (tags ?r2)"
    using k by (simp add: tags_rewrite_funpow_distinct or_list_Nil)
  have e1: "default [] t1 = [] \<longrightarrow> tags ?r1 = tags r"
    by (simp add: tags_rewrite_funpow_falsy or_list_Nil)
  have e2: "default [] t2 = [] \<longrightarrow> tags ?r2 = tags ?r1"
    by (simp add: tags_rewrite_funpow_falsy or_list_Nil)
  have f: "endpoint ?r2 = endpoint r" "methods ?r2 = methods r" "name ?r2 = name r"
    "include_in_schema ?r2 = include_in_schema r"
    by (simp_all only: other_rewrite_funpow)
  from o1 o2 p1 p2 u1 u2 d1 d2 e1 e2 f
  show "\<exists>r1 r2. objs s1 a = Route r1 \<and> objs s2 a = Route r2 \<and>
            path r1 = concat (replicate ?k p1) @ path r \<and>
            path r2 = concat (replicate ?k p2) @ path r1 \<and>
            set (tags r1) = set (tags r) \<union> set (default [] t1) \<and>
            set (tags r2) = set (tags r1) \<union> set (default [] t2) \<and>
            (default [] t1 \<noteq> [] \<longrightarrow> distinct (tags r1)) \<and>
            (default [] t2 \<noteq> [] \<longrightarrow> distinct (tags r2)) \<and>
            (default [] t1 = [] \<longrightarrow> tags r1 = tags r) \<and>
            (default [] t2 = [] \<longrightarrow> tags r2 = tags r1) \<and>
            endpoint r2 = endpoint r \<and> methods r2 = methods r \<and> name r2 = name r \<and>
            include_in_schema r2 = include_in_schema r"
    by blast
qed

text \<open>
  The router of the example, included with \<open>/v1\<close> and tag \<open>v1\<close> and then,
  into another application, with \<open>/v2\<close> and tag \<open>v2\<close>: both tables hold the
  addresses 2 and 3, and the first route reads \<open>/v2/v1/items\<close> with tags
  \<open>{x, v1, v2}\<close>.
\<close>

theorem include_router_twice_shares_routes_witness:
  "\<exists>s1 s2 r1 r2.
      include_router 2 \<lparr>router_routes = 3\<rparr> (Some ''/v1'') (Some [''v1'']) example_store
        = Some s1 \<and>
      include_router 3 \<lparr>router_routes = 3\<rparr> (Some ''/v2'') (Some [''v2'']) s1 = Some s2 \<and>
      router_table \<lparr>router_routes = 3\<rparr> s2 = [2, 3] \<and>
      app_table 2 s1 = [2, 3] \<and> app_table 3 s1 = [] \<and> app_table 3 s2 = [2, 3] \<and>
      objs example_store 2 = Route items_route \<and>
      path items_route = ''/items'' \<and> tags items_route = [''x''] \<and>
      objs s1 2 = Route r1 \<and> path r1 = ''/v1/items'' \<and> set (tags r1) = {''x'', ''v1''} \<and>
      objs s2 2 = Route r2 \<and> path r2 = ''/v2/v1/items'' \<and>
      set (tags r2) = {''x'', ''v1'', ''v2''} \<and> distinct (tags r2)"
proof -
  let ?R = "\<lparr>router_routes = 3\<rparr>"
  note c = include_router_twice_shares_routes
    [of 2 ?R example_store 3 "''/v1''" "Some [''v1'']" "''/v2''" "Some [''v2'']"]
  from example_returns(1) example_returns(4)
  have "returns 2 ?R example_store \<and> returns 3 ?R example_store" by simp
  with c have "Option.bind (include_router 2 ?R (Some ''/v1'') (Some [''v1'']) example_store)
        (include_router 3 ?R (Some ''/v2'') (Some [''v2''])) \<noteq> None"
    by (rule conjunct1[THEN mp])
  then obtain s1 s2
    where s1: "include_router 2 ?R (Some ''/v1'') (Some [''v1'']) example_store = Some s1"
    and s2: "include_router 3 ?R (Some ''/v2'') (Some [''v2'']) s1 = Some s2"
    by (auto simp: bind_eq_Some_conv)
  note f = c[THEN conjunct2, rule_format, OF conjI[OF s1 s2]]
  have m2: "2 \<in> set (router_table ?R example_store)"
    unfolding example_table by simp
  from f have rt: "router_table ?R s2 = router_table ?R example_store"
    by blast
  from f have d1: "drop (length (app_table 2 example_store)) (app_table 2 s1) =
        filter (is_route example_store) (router_table ?R example_store)"
    and d2: "drop (length (app_table 3 s1)) (app_table 3 s2) =
        filter (is_route example_store) (router_table ?R example_store)"
    by blast+
  have t31: "app_table 3 s1 = []"
    using lists_include_router[OF s1] apps_include_router[OF s1]
    by (simp add: app_table_def example_apps example_store_def)
  from d1 have t21: "app_table 2 s1 = [2, 3]"
    by (simp add: example_app_table example_table example_is_route)
  from d2 have t32: "app_table 3 s2 = [2, 3]"
    by (simp add: t31 example_table example_is_route)
  from f[THEN conjunct2, THEN conjunct2, THEN conjunct2, THEN conjunct2, THEN conjunct2,
      rule_format, OF conjI[OF m2 example_objs(1)]]
  obtain r1 r2 where r: "objs s1 2 = Route r1" "objs s2 2 = Route r2"
    and p: "path r1 = concat (replicate (count_list (router_table ?R example_store) 2) ''/v1'')
       @ path items_route"
    "path r2 = concat (replicate (count_list (router_table ?R example_store) 2) ''/v2'')
       @ path r1"
    and u: "set (tags r1) = set (tags items_route) \<union> set (default [] (Some [''v1'']))"
    "set (tags r2) = set (tags r1) \<union> set (default [] (Some [''v2'']))"
    and d: "default [] (Some [''v2'']) \<noteq> [] \<longrightarrow> distinct (tags r2)"
    by blast
  have i: "path items_route = ''/items''" "tags items_route = [''x'']"
    by (simp_all add: items_route_def)
  have p1: "path r1 = ''/v1/items''"
    using p(1) by (simp add: example_table i)
  have p2: "path r2 = ''/v2/v1/items''"
    using p(2) by (simp add: example_table p1)
  have u1: "set (tags r1) = {''x'', ''v1''}"
    using u(1) by (auto simp add: default_def i)
  have u2: "set (tags r2) = {''x'', ''v1'', ''v2''}"
    using u(2) by (auto simp add: default_def u1)
  have d2': "distinct (tags r2)"
    using d by (simp add: default_def)
  from rt have rt': "router_table ?R s2 = [2, 3]"
    by (simp add: example_table)
  from s1 s2 rt' t21 t31 t32 example_objs(1) i r(1) p1 u1 r(2) p2 u2 d2'
  show ?thesis by blast
qed

text \<open>
  C7. \<open>add_route\<close> appends the address of a new object to the application's
  table. Called without \<open>methods\<close>, it builds the route with the method list
  \<open>["GET"]\<close>, whose set is \<open>{"GET"}\<close>, for every path and handler; called without
  \<open>include_in_schema\<close>, it builds the route with that flag true.
\<close>

theorem add_route_defaults:
  "app_table self (add_route self p e None nm vis s) = app_table self s @ [fresh_obj s] \<and>
   objs (add_route self p e None nm vis s) (fresh_obj s) =
     Route (APIRoute_init p e [''GET''] nm (default True vis)) \<and>
   methods (APIRoute_init p e [''GET''] nm (default True vis)) = [''GET''] \<and>
   set (methods (APIRoute_init p e [''GET''] nm (default True vis))) = {''GET''} \<and>
   path (APIRoute_init p e [''GET''] nm (default True vis)) = p \<and>
   endpoint (APIRoute_init p e [''GET''] nm (default True vis)) = e \<and>
   app_table self (add_route self p e ms nm None s) = app_table self s @ [fresh_obj s] \<and>
   objs (add_route self p e ms nm None s) (fresh_obj s) =
     Route (APIRoute_init p e (or_list ms [''GET'']) nm True) \<and>
   include_in_schema (APIRoute_init p e (or_list ms [''GET'']) nm True) = True"
  by (simp add: app_table_add_route objs_add_route or_list_def default_def APIRoute_init_def)

text \<open>
  A route \<open>/ping\<close> added to the empty table of application 2, with every keyword
  argument omitted.
\<close>

theorem add_route_defaults_witness:
  "app_table 2 (add_route 2 ''/ping'' 9 None None None example_store) = [5] \<and>
   objs (add_route 2 ''/ping'' 9 None None None example_store) 5 =
     Route \<lparr>path = ''/ping'', endpoint = 9, methods = [''GET''], name = None,
            include_in_schema = True, tags = []\<rparr>"
  using add_route_defaults[of 2 "''/ping''" 9 None None example_store None]
  by (simp add: example_app_table example_fresh_obj APIRoute_init_def default_def)

text \<open>
  C8. Called without \<open>name\<close>, \<open>add_route\<close> passes \<open>None\<close> on to the
  constructor, and the name of the route is \<open>None\<close>: absent, not the empty string.
\<close>

theorem add_route_name_absent:
  "app_table self (add_route self p e ms None vis s) = app_table self s @ [fresh_obj s] \<and>
   objs (add_route self p e ms None vis s) (fresh_obj s) =
     Route (APIRoute_init p e (or_list ms [''GET'']) None (default True vis)) \<and>
   name (APIRoute_init p e (or_list ms [''GET'']) None (default True vis)) = None \<and>
   name (APIRoute_init p e (or_list ms [''GET'']) None (default True vis)) \<noteq> Some []"
  by (simp add: app_table_add_route objs_add_route APIRoute_init_def)

text \<open>
  The same with methods and visibility given and the name omitted.
\<close>

theorem add_route_name_absent_witness:
  "app_table 2 (add_route 2 ''/ping'' 9 (Some [''POST'']) None (Some False) example_store) = [5] \<and>
   objs (add_route 2 ''/ping'' 9 (Some [''POST'']) None (Some False) example_store) 5 =
     Route \<lparr>path = ''/ping'', endpoint = 9, methods = [''POST''], name = None,
            include_in_schema = False, tags = []\<rparr>"
  using add_route_name_absent[of 2 "''/ping''" 9 "Some [''POST'']" "Some False" example_store]
  by (simp add: example_app_table example_fresh_obj APIRoute_init_def default_def or_list_def)

text \<open>
  C9. The route that \<open>add_route\<close> appends never has an empty method list:
  \<open>methods or ["GET"]\<close> gives \<open>["GET"]\<close> when the argument is omitted, \<open>None\<close> or
  the empty list, and the argument itself otherwise.
\<close>

theorem add_route_methods_nonempty:
  "app_table self (add_route self p e ms nm vis s) = app_table self s @ [fresh_obj s] \<and>
   (\<exists>r. objs (add_route self p e ms nm vis s) (fresh_obj s) = Route r \<and>
        methods r \<noteq> [] \<and>
        (ms = None \<or> ms = Some [] \<longrightarrow> methods r = [''GET'']) \<and>
        (\<forall>m. ms = Some m \<and> m \<noteq> [] \<longrightarrow> methods r = m))"
  by (auto simp add: app_table_add_route objs_add_route APIRoute_init_def or_list_def
      split: option.splits)

text \<open>
  \<open>methods=[]\<close> stores \<open>["GET"]\<close>; \<open>methods=["PUT", "POST"]\<close> is stored as
  given.
\<close>

theorem add_route_methods_nonempty_witness:
  "\<exists>r r'. app_table 2 (add_route 2 ''/ping'' 9 (Some []) None None example_store) = [5] \<and>
     objs (add_route 2 ''/ping'' 9 (Some []) None None example_store) 5 = Route r \<and>
     methods r = [''GET''] \<and>
     objs (add_route 2 ''/ping'' 9 (Some [''PUT'', ''POST'']) None None example_store) 5
       = Route r' \<and>
     methods r' = [''PUT'', ''POST'']"
proof -
  from add_route_methods_nonempty[of 2 "''/ping''" 9 "Some []" None None example_store]
  obtain r where t: "app_table 2 (add_route 2 ''/ping'' 9 (Some []) None None example_store) = [5]"
    and r: "objs (add_route 2 ''/ping'' 9 (Some []) None None example_store) 5 = Route r"
    "methods r = [''GET'']"
    by (auto simp add: example_app_table example_fresh_obj)
  from add_route_methods_nonempty
    [of 2 "''/ping''" 9 "Some [''PUT'', ''POST'']" None None example_store]
  obtain r' where r':
    "objs (add_route 2 ''/ping'' 9 (Some [''PUT'', ''POST'']) None None example_store) 5
       = Route r'"
    "methods r' = [''PUT'', ''POST'']"
    by (auto simp add: example_fresh_obj)
  from t r r' show ?thesis by blast
qed

end
